theory Spec2Isabelle
  imports Main
begin

section \<open>JavaScript strings\<close>

text \<open>
  The plugin (\<^verbatim>\<open>src/ts/plugin.ts\<close>) works on JavaScript strings. A JavaScript string is a
  sequence of UTF-16 code units, and \<^verbatim>\<open>includes\<close>, \<^verbatim>\<open>match\<close> and \<^verbatim>\<open>replace\<close> (no regular
  expression of the plugin has the \<^verbatim>\<open>u\<close> flag) all work code unit by code unit. A code unit
  is modelled by its number; in the program that number is below 65536, and nothing below
  depends on the bound. \<open>js\<close> turns a literal of the source into such a sequence.
\<close>

type_synonym code_unit = nat
type_synonym js_string = "code_unit list"

definition js :: "string \<Rightarrow> js_string" where
  "js s = map of_char s"

text \<open>\<^verbatim>\<open>s.startsWith(pat)\<close> and \<^verbatim>\<open>s.includes(pat)\<close>: is \<open>pat\<close> a contiguous run of \<open>s\<close>.\<close>

fun starts_with :: "js_string \<Rightarrow> js_string \<Rightarrow> bool" where
  "starts_with s [] = True"
| "starts_with [] (p # ps) = False"
| "starts_with (u # us) (p # ps) = (u = p \<and> starts_with us ps)"

fun js_includes :: "js_string \<Rightarrow> js_string \<Rightarrow> bool" where
  "js_includes [] pat = starts_with [] pat"
| "js_includes (u # us) pat = (starts_with (u # us) pat \<or> js_includes us pat)"

section \<open>The regular expressions of the plugin\<close>

text \<open>
  The six regular expressions of the plugin are flat: a sequence of atoms, each one a
  character class, a class under \<^verbatim>\<open>*\<close> or \<^verbatim>\<open>+\<close>, a negative lookahead over a
  sequence of classes, or (once) a capture group around a class under \<^verbatim>\<open>*\<close>.

  Character classes: a literal character, \<^verbatim>\<open>\s\<close>, \<^verbatim>\<open>.\<close> and a bracket class given by its
  ranges (a single character \<open>c\<close> is the range \<open>(c, c)\<close>).
\<close>

datatype cls = Lit code_unit | Space | Dot | Ranges "(code_unit \<times> code_unit) list"

text \<open>
  \<^verbatim>\<open>\s\<close> is ECMAScript's WhiteSpace and LineTerminator: TAB, LF, VT, FF, CR, space, NBSP,
  U+1680, U+2000 to U+200A, U+2028, U+2029, U+202F, U+205F, U+3000 and U+FEFF.
  \<^verbatim>\<open>.\<close> (no \<^verbatim>\<open>s\<close> flag) is every code unit but the line terminators LF, CR, U+2028, U+2029.
\<close>

definition is_space :: "code_unit \<Rightarrow> bool" where
  "is_space u = (u \<in> {9, 10, 11, 12, 13, 32, 160, 5760, 8232, 8233, 8239, 8287, 12288, 65279}
                 \<or> (8192 \<le> u \<and> u \<le> 8202))"

definition is_line_terminator :: "code_unit \<Rightarrow> bool" where
  "is_line_terminator u = (u \<in> {10, 13, 8232, 8233})"

fun in_ranges :: "(code_unit \<times> code_unit) list \<Rightarrow> code_unit \<Rightarrow> bool" where
  "in_ranges [] u = False"
| "in_ranges ((lo, hi) # rs) u = ((lo \<le> u \<and> u \<le> hi) \<or> in_ranges rs u)"

text \<open>
  Under the \<^verbatim>\<open>i\<close> flag (and no \<^verbatim>\<open>u\<close> flag) a pattern character \<open>a\<close> matches an input code
  unit \<open>u\<close> when \<open>Canonicalize a = Canonicalize u\<close>, and a class matches when one of its
  members does. Canonicalize upper-cases, but never maps a code unit from 128 on to one
  below 128. Every pattern character and every bracket class of the plugin is ASCII, and
  against those the comparison comes down to ASCII case folding: \<open>u\<close> itself, its ASCII upper
  case or its ASCII lower case is in the class. \<^verbatim>\<open>\s\<close> and \<^verbatim>\<open>.\<close> hold no cased character
  whose partner is outside, so the flag does not change them.
\<close>

definition ascii_upper :: "code_unit \<Rightarrow> code_unit" where
  "ascii_upper u = (if 97 \<le> u \<and> u \<le> 122 then u - 32 else u)"

definition ascii_lower :: "code_unit \<Rightarrow> code_unit" where
  "ascii_lower u = (if 65 \<le> u \<and> u \<le> 90 then u + 32 else u)"

fun cls_match :: "bool \<Rightarrow> cls \<Rightarrow> code_unit \<Rightarrow> bool" where
  "cls_match ic (Lit a) u = (if ic then ascii_upper a = ascii_upper u else a = u)"
| "cls_match ic Space u = is_space u"
| "cls_match ic Dot u = (\<not> is_line_terminator u)"
| "cls_match ic (Ranges rs) u =
     (in_ranges rs u \<or> (ic \<and> (in_ranges rs (ascii_upper u) \<or> in_ranges rs (ascii_lower u))))"

datatype piece =
    One cls
  | Star cls
  | Plus cls
  | NotAhead "cls list"
  | CapStar cls

text \<open>A run of literal characters of a pattern.\<close>

definition lits :: "string \<Rightarrow> piece list" where
  "lits s = map (\<lambda>c. One (Lit (of_char c))) s"

text \<open>Does the sequence of classes inside a lookahead match at the start of the text.\<close>

fun look :: "bool \<Rightarrow> cls list \<Rightarrow> js_string \<Rightarrow> bool" where
  "look ic [] s = True"
| "look ic (c # cs) [] = False"
| "look ic (c # cs) (u # us) = (cls_match ic c u \<and> look ic cs us)"

text \<open>
  The backtracking matcher at one position. The first argument is the \<^verbatim>\<open>i\<close> flag. The
  result is None when the pattern does not match here, and otherwise the text of capture
  group 1 (empty when the pattern has no group) and the text after the match. \<^verbatim>\<open>*\<close> and
  \<^verbatim>\<open>+\<close> are greedy: one more character is tried first, and the rest of the pattern is
  tried at the current position only when that fails.
\<close>

fun match_here :: "bool \<Rightarrow> piece list \<Rightarrow> js_string \<Rightarrow> (js_string \<times> js_string) option" where
  "match_here ic [] s = Some ([], s)"
| "match_here ic (One c # ps) [] = None"
| "match_here ic (One c # ps) (u # us) =
     (if cls_match ic c u then match_here ic ps us else None)"
| "match_here ic (Star c # ps) [] = match_here ic ps []"
| "match_here ic (Star c # ps) (u # us) =
     (if cls_match ic c u
      then (case match_here ic (Star c # ps) us of
              Some r \<Rightarrow> Some r
            | None \<Rightarrow> match_here ic ps (u # us))
      else match_here ic ps (u # us))"
| "match_here ic (Plus c # ps) [] = None"
| "match_here ic (Plus c # ps) (u # us) =
     (if cls_match ic c u then match_here ic (Star c # ps) us else None)"
| "match_here ic (NotAhead cs # ps) s =
     (if look ic cs s then None else match_here ic ps s)"
| "match_here ic (CapStar c # ps) [] = match_here ic ps []"
| "match_here ic (CapStar c # ps) (u # us) =
     (if cls_match ic c u
      then (case match_here ic (CapStar c # ps) us of
              Some (cap, rest) \<Rightarrow> Some (u # cap, rest)
            | None \<Rightarrow> match_here ic ps (u # us))
      else match_here ic ps (u # us))"

text \<open>
  \<^verbatim>\<open>(code.match(re) ?? []).length > 0\<close> for a regular expression without the \<^verbatim>\<open>g\<close> flag:
  \<^verbatim>\<open>match\<close> gives null when the pattern matches nowhere and an array that starts with
  the matched text otherwise, so the test says whether the pattern matches at some position,
  tried from left to right.
\<close>

fun re_test :: "bool \<Rightarrow> piece list \<Rightarrow> js_string \<Rightarrow> bool" where
  "re_test ic ps [] = (match_here ic ps [] \<noteq> None)"
| "re_test ic ps (u # us) = (match_here ic ps (u # us) \<noteq> None \<or> re_test ic ps us)"

text \<open>
  \<^verbatim>\<open>code.replace(re, template)\<close> for a regular expression with the \<^verbatim>\<open>g\<close> flag: the
  leftmost match is replaced by the expanded template and the search goes on after it; a
  character at which the pattern does not match is copied. After an empty match the search
  moves one character on (AdvanceStringIndex). A template is a sequence of literal text and
  \<^verbatim>\<open>$1\<close>.
\<close>

datatype subst = Txt js_string | Group1

fun expand :: "subst list \<Rightarrow> js_string \<Rightarrow> js_string" where
  "expand [] cap = []"
| "expand (Txt t # ts) cap = t @ expand ts cap"
| "expand (Group1 # ts) cap = cap @ expand ts cap"

function replace_global :: "bool \<Rightarrow> piece list \<Rightarrow> subst list \<Rightarrow> js_string \<Rightarrow> js_string" where
  "replace_global ic ps tpl s =
     (case match_here ic ps s of
        Some (cap, rest) \<Rightarrow>
          (if length rest < length s then expand tpl cap @ replace_global ic ps tpl rest
           else expand tpl cap @ (case s of [] \<Rightarrow> [] | u # us \<Rightarrow> u # replace_global ic ps tpl us))
      | None \<Rightarrow> (case s of [] \<Rightarrow> [] | u # us \<Rightarrow> u # replace_global ic ps tpl us))"
  by pat_completeness auto
termination
  by (relation "measure (\<lambda>(ic, ps, tpl, s). length s)") auto

section \<open>The plugin\<close>

text \<open>
  \<^verbatim>\<open>passesPreflight\<close>: not a style block, not a template block, and not already wrapped.
\<close>

definition passesPreflight :: "js_string \<Rightarrow> bool" where
  "passesPreflight code =
     (\<not> js_includes code (js ''type=style'')
      \<and> \<not> js_includes code (js ''type=template'')
      \<and> \<not> js_includes code (js ''toNative''))"

text \<open>
  The patterns of \<^verbatim>\<open>exportsClassComponent\<close>, in the order of the source:
  \<^verbatim>\<open>/from\s+['"]vue-facing-decorator['"]/\<close>, \<^verbatim>\<open>/class.*extends\sVue/\<close>, \<^verbatim>\<open>/class.*extends/\<close>,
  \<^verbatim>\<open>/export\sdefault\s(?!\{)/\<close> and \<^verbatim>\<open>/export\sdefault\s(?!class)(?![A-Z])/\<close>.
  Code unit 39 is the single quote, 34 the double quote, 123 the opening brace, and 65 to
  90 are \<^verbatim>\<open>A\<close> to \<^verbatim>\<open>Z\<close>.
\<close>

definition re_import :: "piece list" where
  "re_import = lits ''from'' @ [Plus Space, One (Ranges [(39, 39), (34, 34)])]
               @ lits ''vue-facing-decorator'' @ [One (Ranges [(39, 39), (34, 34)])]"

definition re_extends_vue :: "piece list" where
  "re_extends_vue = lits ''class'' @ [Star Dot] @ lits ''extends'' @ [One Space] @ lits ''Vue''"

definition re_extends :: "piece list" where
  "re_extends = lits ''class'' @ [Star Dot] @ lits ''extends''"

definition re_export_default :: "piece list" where
  "re_export_default = lits ''export'' @ [One Space] @ lits ''default'' @ [One Space]
                       @ [NotAhead [Lit 123]]"

definition re_export_lower :: "piece list" where
  "re_export_lower = lits ''export'' @ [One Space] @ lits ''default'' @ [One Space]
                     @ [NotAhead (map (\<lambda>c. Lit (of_char c)) ''class''), NotAhead [Ranges [(65, 90)]]]"

text \<open>
  \<^verbatim>\<open>exportsClassComponent\<close> keeps a running \<^verbatim>\<open>confidence\<close>. \<open>confidence_milestone\<close> is its
  value at the early return (after the import check and the two \<^verbatim>\<open>extends\<close> checks, the
  second one the \<^verbatim>\<open>else if\<close> of the first), \<open>confidence_final\<close> its value at the last line,
  after the two checks on the default export.
\<close>

definition confidence_milestone :: "js_string \<Rightarrow> int" where
  "confidence_milestone code =
     (let confidence = 0;
          confidence = (if re_test False re_import code then confidence + 40 else confidence);
          confidence = (if re_test False re_extends_vue code then confidence + 40
                        else if re_test False re_extends code then confidence + 10
                        else confidence)
      in confidence)"

definition default_export_bonus :: "js_string \<Rightarrow> int" where
  "default_export_bonus code = (if re_test False re_export_default code then 1 else 0)"

definition lowercase_export_penalty :: "js_string \<Rightarrow> int" where
  "lowercase_export_penalty code = (if re_test False re_export_lower code then 1 else 0)"

definition confidence_final :: "js_string \<Rightarrow> int" where
  "confidence_final code =
     (let confidence = confidence_milestone code;
          confidence = confidence + default_export_bonus code;
          confidence = confidence - lowercase_export_penalty code
      in confidence)"

definition exportsClassComponent :: "js_string \<Rightarrow> bool" where
  "exportsClassComponent code =
     (if confidence_milestone code > 50 then True
      else confidence_final code > 50)"

text \<open>
  \<^verbatim>\<open>pluginVfd\<close>: the options hold the predicate \<^verbatim>\<open>isClassComponent\<close>; by default it is
  \<^verbatim>\<open>passesPreflight(code) && exportsClassComponent(code)\<close>. The handler that the plugin
  registers for \<^verbatim>\<open>.vue\<close> files returns the code as it is when the predicate says no, and
  otherwise the import line followed by the code with
  \<^verbatim>\<open>/const _sfc_main = ([A-Za-z]*);/ig\<close> replaced by \<^verbatim>\<open>const _sfc_main = toNative($1);\<close>.
\<close>

record PluginVfdOptions =
  isClassComponent :: "js_string \<Rightarrow> bool"

definition default_options :: PluginVfdOptions where
  "default_options =
     \<lparr>isClassComponent = (\<lambda>code. passesPreflight code \<and> exportsClassComponent code)\<rparr>"

definition vueFacingImport :: js_string where
  \<open>vueFacingImport = js ''\<newline>import {toNative} from "vue-facing-decorator";\<newline>''\<close>

definition re_sfc_main :: "piece list" where
  "re_sfc_main = lits ''const _sfc_main = '' @ [CapStar (Ranges [(65, 90), (97, 122)])]
                 @ lits '';''"

definition sfc_template :: "subst list" where
  "sfc_template = [Txt (js ''const _sfc_main = toNative(''), Group1, Txt (js '');'')]"

definition transformedCode :: "js_string \<Rightarrow> js_string" where
  "transformedCode code = replace_global True re_sfc_main sfc_template code"

definition handler :: "PluginVfdOptions \<Rightarrow> js_string \<Rightarrow> js_string" where
  "handler options code =
     (if \<not> isClassComponent options code then code
      else vueFacingImport @ transformedCode code)"

text \<open>
  \<^verbatim>\<open>pluginVfd(options)\<close> registers \<open>handler options\<close> as the transform of \<^verbatim>\<open>.vue\<close> files
  (after the Vue loader); called without an argument it takes the default options. The
  registration itself belongs to the build tool and is not modelled: the plugin is the
  function from the code of a file to the code that replaces it.
\<close>

definition pluginVfd :: "PluginVfdOptions option \<Rightarrow> js_string \<Rightarrow> js_string" where
  "pluginVfd opt code =
     handler (case opt of None \<Rightarrow> default_options | Some options \<Rightarrow> options) code"

text \<open>The whole pipeline with the default options.\<close>

definition pipeline :: "js_string \<Rightarrow> js_string" where
  "pipeline code = pluginVfd None code"

section \<open>Notions used in the statements\<close>

text \<open>The ASCII letters, the members of \<^verbatim>\<open>[A-Za-z]\<close>.\<close>

definition is_ascii_letter :: "code_unit \<Rightarrow> bool" where
  "is_ascii_letter u = ((65 \<le> u \<and> u \<le> 90) \<or> (97 \<le> u \<and> u \<le> 122))"

text \<open>A text that is \<^verbatim>\<open>const _sfc_main = \<close> up to the ASCII case of its letters.\<close>

definition sfc_prefix :: "js_string \<Rightarrow> bool" where
  "sfc_prefix k = (map ascii_upper k = map ascii_upper (js ''const _sfc_main = ''))"

text \<open>
  Two component files: a class that extends \<^verbatim>\<open>Vue\<close>, and a class that extends another
  base class with a default export whose name starts in lower case.
\<close>

definition caseA :: js_string where
  \<open>caseA = js ''import { Component } from "vue-facing-decorator";\<newline>class Foo extends Vue {}\<newline>export default Foo;''\<close>

definition caseB :: js_string where
  \<open>caseB = js ''import { Component } from "vue-facing-decorator";\<newline>class Foo extends Base {}\<newline>export default exampleComponent;''\<close>

text \<open>
  A class component whose name ends in a digit, as the Vue loader hands it over, and a
  class component whose \<^verbatim>\<open>extends\<close> clause stands on the line after the class name.
\<close>

definition caseStep2 :: js_string where
  \<open>caseStep2 = js ''import { Component, Vue } from "vue-facing-decorator";\<newline>class Step2 extends Vue {}\<newline>const _sfc_main = Step2;\<newline>export default _sfc_main;''\<close>

definition caseSplit :: js_string where
  \<open>caseSplit = js ''import { Component, Vue } from "vue-facing-decorator";\<newline>class Foo\<newline>  extends Vue {}\<newline>export default Foo;''\<close>

text \<open>Options whose predicate accepts every text, and options whose predicate accepts none.\<close>

definition always :: PluginVfdOptions where
  "always = \<lparr>isClassComponent = (\<lambda>code. True)\<rparr>"

definition never :: PluginVfdOptions where
  "never = \<lparr>isClassComponent = (\<lambda>code. False)\<rparr>"

section \<open>Properties of the string and pattern operations\<close>

text \<open>\<^verbatim>\<open>includes\<close> is substring containment.\<close>

lemma starts_with_iff: "starts_with s p \<longleftrightarrow> (\<exists>post. s = p @ post)"
  by (induction s p rule: starts_with.induct) auto

lemma js_includes_iff: "js_includes s p \<longleftrightarrow> (\<exists>pre post. s = pre @ p @ post)"
proof (induction s)
  case Nil
  then show ?case by (cases p) auto
next
  case (Cons u us)
  show ?case
  proof
    assume "js_includes (u # us) p"
    then consider "starts_with (u # us) p" | "js_includes us p" by auto
    then show "\<exists>pre post. u # us = pre @ p @ post"
    proof cases
      case 1
      then obtain post where "u # us = p @ post" by (auto simp: starts_with_iff)
      then have "u # us = [] @ p @ post" by simp
      then show ?thesis by blast
    next
      case 2
      then obtain pre post where "us = pre @ p @ post" using Cons.IH by blast
      then have "u # us = (u # pre) @ p @ post" by simp
      then show ?thesis by blast
    qed
  next
    assume "\<exists>pre post. u # us = pre @ p @ post"
    then obtain pre post where e: "u # us = pre @ p @ post" by blast
    show "js_includes (u # us) p"
    proof (cases pre)
      case Nil
      then have "starts_with (u # us) p" using e by (auto simp: starts_with_iff)
      then show ?thesis by simp
    next
      case (Cons a pre')
      then have "us = pre' @ p @ post" using e by simp
      then show ?thesis using Cons.IH by auto
    qed
  qed
qed

lemma re_test_iff:
  "re_test ic ps s \<longleftrightarrow> (\<exists>pre post. s = pre @ post \<and> match_here ic ps post \<noteq> None)"
proof (induction s)
  case Nil
  then show ?case by auto
next
  case (Cons u us)
  show ?case
  proof
    assume "re_test ic ps (u # us)"
    then consider "match_here ic ps (u # us) \<noteq> None" | "re_test ic ps us" by auto
    then show "\<exists>pre post. u # us = pre @ post \<and> match_here ic ps post \<noteq> None"
    proof cases
      case 1
      then have "u # us = [] @ (u # us) \<and> match_here ic ps (u # us) \<noteq> None" by simp
      then show ?thesis by blast
    next
      case 2
      then obtain pre post where "us = pre @ post" "match_here ic ps post \<noteq> None"
        using Cons.IH by blast
      then have "u # us = (u # pre) @ post \<and> match_here ic ps post \<noteq> None" by simp
      then show ?thesis by blast
    qed
  next
    assume "\<exists>pre post. u # us = pre @ post \<and> match_here ic ps post \<noteq> None"
    then obtain pre post where e: "u # us = pre @ post" and m: "match_here ic ps post \<noteq> None"
      by blast
    show "re_test ic ps (u # us)"
    proof (cases pre)
      case Nil
      then show ?thesis using e m by auto
    next
      case (Cons a pre')
      then have "us = pre' @ post" using e by simp
      then show ?thesis using Cons.IH m by auto
    qed
  qed
qed

lemma match_lits_iff:
  "match_here ic (lits l @ ps) s = Some r \<longleftrightarrow>
     (\<exists>k s'. s = k @ s' \<and> list_all2 (\<lambda>c u. cls_match ic (Lit (of_char c)) u) l k
        \<and> match_here ic ps s' = Some r)"
proof (induction l arbitrary: s)
  case Nil
  then show ?case by (simp add: lits_def)
next
  case (Cons c l)
  let ?P = "\<lambda>c u. cls_match ic (Lit (of_char c)) u"
  have step: "match_here ic (lits (c # l) @ ps) s = Some r \<longleftrightarrow>
      (\<exists>u us. s = u # us \<and> ?P c u \<and> match_here ic (lits l @ ps) us = Some r)"
    by (cases s) (simp_all add: lits_def del: cls_match.simps)
  show ?case
  proof
    assume "match_here ic (lits (c # l) @ ps) s = Some r"
    then obtain u us where s: "s = u # us" and u: "?P c u"
      and m: "match_here ic (lits l @ ps) us = Some r"
      using step by blast
    from m obtain k s' where k: "us = k @ s'" "list_all2 ?P l k" "match_here ic ps s' = Some r"
      using Cons.IH by blast
    have "s = (u # k) @ s' \<and> list_all2 ?P (c # l) (u # k) \<and> match_here ic ps s' = Some r"
      using s u k by simp
    then show "\<exists>k s'. s = k @ s' \<and> list_all2 ?P (c # l) k \<and> match_here ic ps s' = Some r"
      by blast
  next
    assume "\<exists>k s'. s = k @ s' \<and> list_all2 ?P (c # l) k \<and> match_here ic ps s' = Some r"
    then obtain k s' where k: "s = k @ s'" "list_all2 ?P (c # l) k" "match_here ic ps s' = Some r"
      by blast
    from k(2) obtain u k' where k': "k = u # k'" "?P c u" "list_all2 ?P l k'"
      by (auto simp: list_all2_Cons1)
    have "match_here ic (lits l @ ps) (k' @ s') = Some r"
      using Cons.IH k'(3) k(3) by blast
    then show "match_here ic (lits (c # l) @ ps) s = Some r"
      using step k(1) k'(1,2) by simp
  qed
qed

lemma lit_cs: "list_all2 (\<lambda>c u. cls_match False (Lit (of_char c)) u) l k \<longleftrightarrow> k = js l"
  by (induction l arbitrary: k) (auto simp: js_def list_all2_Cons1)

lemma match_lits_cs:
  "match_here False (lits l @ ps) s = Some r \<longleftrightarrow>
     (\<exists>s'. s = js l @ s' \<and> match_here False ps s' = Some r)"
  unfolding match_lits_iff lit_cs by blast

lemma star_complete:
  "match_here ic ps s \<noteq> None \<Longrightarrow> \<forall>u\<in>set xs. cls_match ic c u \<Longrightarrow>
   match_here ic (Star c # ps) (xs @ s) \<noteq> None"
proof (induction xs)
  case Nil
  then show ?case by (cases s) (auto split: option.splits)
next
  case (Cons x xs)
  then show ?case by (auto split: option.splits)
qed

lemma star_sound:
  "match_here ic (Star c # ps) s = Some r \<Longrightarrow>
   \<exists>xs s'. s = xs @ s' \<and> (\<forall>u\<in>set xs. cls_match ic c u) \<and> match_here ic ps s' = Some r"
proof (induction s)
  case Nil
  then show ?case by auto
next
  case (Cons u us)
  show ?case
  proof (cases "cls_match ic c u \<and> match_here ic (Star c # ps) us \<noteq> None")
    case True
    then have "match_here ic (Star c # ps) us = Some r" using Cons.prems by auto
    then obtain xs s' where "us = xs @ s'" "\<forall>u\<in>set xs. cls_match ic c u" "match_here ic ps s' = Some r"
      using Cons.IH by blast
    then have "u # us = (u # xs) @ s' \<and> (\<forall>v\<in>set (u # xs). cls_match ic c v) \<and> match_here ic ps s' = Some r"
      using True by simp
    then show ?thesis by blast
  next
    case False
    then have "match_here ic ps (u # us) = Some r" using Cons.prems by (auto split: if_splits option.splits)
    then have "u # us = [] @ (u # us) \<and> (\<forall>v\<in>set []. cls_match ic c v) \<and> match_here ic ps (u # us) = Some r"
      by simp
    then show ?thesis by blast
  qed
qed

text \<open>Literal runs, single classes and the quantifiers, one piece at a time.\<close>

lemma match_lits_append:
  "match_here False (lits l @ ps) (js l @ s) = match_here False ps s"
  by (induction l) (simp_all add: lits_def js_def)

lemma match_lits_end: "match_here False (lits l) (js l @ s) = Some ([], s)"
  using match_lits_append [of l "[]" s] by simp

lemma match_one_iff:
  "match_here ic (One c # ps) s = Some r \<longleftrightarrow>
     (\<exists>u us. s = u # us \<and> cls_match ic c u \<and> match_here ic ps us = Some r)"
  by (cases s) simp_all

lemma plus_complete:
  "match_here ic ps s \<noteq> None \<Longrightarrow> xs \<noteq> [] \<Longrightarrow> \<forall>u\<in>set xs. cls_match ic c u \<Longrightarrow>
   match_here ic (Plus c # ps) (xs @ s) \<noteq> None"
proof (cases xs)
  case Nil
  assume "xs \<noteq> []" then show ?thesis using Nil by simp
next
  case (Cons x xs')
  assume "match_here ic ps s \<noteq> None" "\<forall>u\<in>set xs. cls_match ic c u"
  then have "match_here ic (Star c # ps) (xs' @ s) \<noteq> None" "cls_match ic c x"
    using Cons star_complete by auto
  then show ?thesis using Cons by simp
qed

lemma re_test_I: "match_here ic ps post \<noteq> None \<Longrightarrow> re_test ic ps (pre @ post)"
  unfolding re_test_iff by blast

lemma import_found:
  assumes "ws \<noteq> []" "\<forall>u\<in>set ws. is_space u" "q \<in> {39, 34}" "q' \<in> {39, 34}"
  shows "re_test False re_import
           (a @ js ''from'' @ ws @ [q] @ js ''vue-facing-decorator'' @ [q'] @ b)"
proof -
  have q: "cls_match False (Ranges [(39, 39), (34, 34)]) q"
          "cls_match False (Ranges [(39, 39), (34, 34)]) q'"
    using assms(3,4) by auto
  have "match_here False (One (Ranges [(39, 39), (34, 34)]) #
          lits ''vue-facing-decorator'' @ [One (Ranges [(39, 39), (34, 34)])])
          ([q] @ js ''vue-facing-decorator'' @ [q'] @ b) \<noteq> None"
    using q by (simp add: match_lits_append del: cls_match.simps)
  then have "match_here False (Plus Space # One (Ranges [(39, 39), (34, 34)]) #
          lits ''vue-facing-decorator'' @ [One (Ranges [(39, 39), (34, 34)])])
          (ws @ [q] @ js ''vue-facing-decorator'' @ [q'] @ b) \<noteq> None"
    using assms(1,2) by (intro plus_complete) simp_all
  then have "match_here False re_import
          (js ''from'' @ ws @ [q] @ js ''vue-facing-decorator'' @ [q'] @ b) \<noteq> None"
    by (simp add: re_import_def match_lits_append del: cls_match.simps)
  then show ?thesis by (rule re_test_I)
qed

lemma extends_vue_found:
  assumes "\<forall>u\<in>set mid. \<not> is_line_terminator u" "is_space w"
  shows "re_test False re_extends_vue
           (a @ js ''class'' @ mid @ js ''extends'' @ [w] @ js ''Vue'' @ b)"
proof -
  have "match_here False (lits ''extends'' @ One Space # lits ''Vue'')
          (js ''extends'' @ [w] @ js ''Vue'' @ b) \<noteq> None"
    using assms(2) by (simp add: match_lits_append match_lits_end)
  then have "match_here False (Star Dot # lits ''extends'' @ One Space # lits ''Vue'')
          (mid @ js ''extends'' @ [w] @ js ''Vue'' @ b) \<noteq> None"
    using assms(1) by (intro star_complete) simp_all
  then have "match_here False re_extends_vue
          (js ''class'' @ mid @ js ''extends'' @ [w] @ js ''Vue'' @ b) \<noteq> None"
    by (simp add: re_extends_vue_def match_lits_append)
  then show ?thesis by (rule re_test_I)
qed

text \<open>Facts for evaluating the classifier on a given text.\<close>

lemmas eval_defs = js_def lits_def is_space_def is_line_terminator_def
  re_import_def re_extends_vue_def re_extends_def re_export_default_def re_export_lower_def
  confidence_milestone_def default_export_bonus_def lowercase_export_penalty_def
  confidence_final_def exportsClassComponent_def

section \<open>The preflight filter\<close>

lemma import_has_toNative: "js_includes (vueFacingImport @ t) (js ''toNative'')"
proof -
  have \<open>vueFacingImport @ t =
      js ''\<newline>import {'' @ js ''toNative'' @ (js ''} from "vue-facing-decorator";\<newline>'' @ t)\<close>
    by (simp add: vueFacingImport_def js_def)
  then show ?thesis unfolding js_includes_iff by blast
qed

text \<open>
  C5. \<^verbatim>\<open>passesPreflight\<close> is false exactly when the text has \<^verbatim>\<open>type=style\<close>,
  \<^verbatim>\<open>type=template\<close> or \<^verbatim>\<open>toNative\<close> as a substring, whatever else it holds.
\<close>

theorem passesPreflight_substrings:
  "passesPreflight code \<longleftrightarrow>
     \<not> ((\<exists>pre post. code = pre @ js ''type=style'' @ post)
        \<or> (\<exists>pre post. code = pre @ js ''type=template'' @ post)
        \<or> (\<exists>pre post. code = pre @ js ''toNative'' @ post))"
  by (simp add: passesPreflight_def js_includes_iff)

section \<open>The classifier\<close>

lemma look_brace: "look False [Lit 123] s = starts_with s (js ''{'')"
  by (cases s) (auto simp: js_def)

lemma match_export_default_iff:
  "match_here False re_export_default s \<noteq> None \<longleftrightarrow>
     (\<exists>w1 w2 post. s = js ''export'' @ [w1] @ js ''default'' @ [w2] @ post
        \<and> is_space w1 \<and> is_space w2 \<and> \<not> starts_with post (js ''{''))"
proof -
  have "(\<exists>r. match_here False re_export_default s = Some r) \<longleftrightarrow>
     (\<exists>r s1 w1 s2 s3 w2 post. s = js ''export'' @ s1 \<and> s1 = w1 # s2 \<and> is_space w1
       \<and> s2 = js ''default'' @ s3 \<and> s3 = w2 # post \<and> is_space w2
       \<and> \<not> starts_with post (js ''{'') \<and> r = ([], post))"
    unfolding re_export_default_def append_Cons append_Nil match_lits_cs match_one_iff
    by (simp add: look_brace) blast
  then show ?thesis by auto
qed

lemma export_default_found_iff:
  "re_test False re_export_default code \<longleftrightarrow>
     (\<exists>pre w1 w2 post. code = pre @ js ''export'' @ [w1] @ js ''default'' @ [w2] @ post
            \<and> is_space w1 \<and> is_space w2 \<and> \<not> starts_with post (js ''{''))"
  unfolding re_test_iff match_export_default_iff by blast

text \<open>
  C1, as amended. When the early return is not taken, the first check on the default export
  adds 1 exactly when the text holds \<^verbatim>\<open>export\<close>, one whitespace character,
  \<^verbatim>\<open>default\<close> and one whitespace character that is not followed by an opening brace:
  only an inline object literal is excluded. The lookahead of this check does not mention
  \<^verbatim>\<open>class\<close>; it is the second check whose lookahead does.
\<close>

theorem default_export_bonus_iff:
  "default_export_bonus code =
     (if \<exists>pre w1 w2 post. code = pre @ js ''export'' @ [w1] @ js ''default'' @ [w2] @ post
            \<and> is_space w1 \<and> is_space w2 \<and> \<not> starts_with post (js ''{'')
      then 1 else 0)"
  unfolding default_export_bonus_def export_default_found_iff ..

text \<open>
  C1 as stated fails: for a default-exported class declaration the early return is not
  taken and the first check still adds 1.
\<close>

theorem class_export_counterexample:
  "confidence_milestone (js ''export default class Foo {}'') \<le> 50
   \<and> default_export_bonus (js ''export default class Foo {}'') = 1"
  by (simp add: eval_defs)

text \<open>
  C6. The threshold is strict: a text whose confidence ends at exactly 50 is rejected.
  The text \<open>caseB\<close> (the import, \<^verbatim>\<open>class Foo extends Base {}\<close> and
  \<^verbatim>\<open>export default exampleComponent;\<close>) gets 40 + 10 + 1 - 1 = 50 and is rejected.
\<close>

theorem score_50_is_rejected:
  "confidence_final code = 50 \<Longrightarrow> \<not> exportsClassComponent code"
  by (simp add: exportsClassComponent_def confidence_final_def confidence_milestone_def
      default_export_bonus_def lowercase_export_penalty_def Let_def split: if_splits)

theorem score_50_is_rejected_witness:
  "confidence_milestone caseB = 40 + 10 \<and> default_export_bonus caseB = 1
   \<and> lowercase_export_penalty caseB = 1 \<and> confidence_final caseB = 50
   \<and> \<not> exportsClassComponent caseB"
proof -
  have f: "confidence_final caseB = 50" by (simp add: caseB_def eval_defs)
  have p: "confidence_milestone caseB = 50 \<and> default_export_bonus caseB = 1
      \<and> lowercase_export_penalty caseB = 1" by (simp add: caseB_def eval_defs)
  show ?thesis using f p score_50_is_rejected [OF f] by simp
qed

text \<open>
  C7, as amended. A text with an import-from clause that names \<^verbatim>\<open>vue-facing-decorator\<close> (in single
  or double quotes, after one or more whitespace characters) and with \<^verbatim>\<open>class\<close>, then
  \<^verbatim>\<open>extends\<close> on the same line, one whitespace character and \<^verbatim>\<open>Vue\<close>, reaches
  confidence 80 at the early return, which is above 50, so the function returns true there
  and the two checks on the default export are not consulted.
\<close>

theorem vue_subclass_early_exit:
  assumes "code = a @ js ''from'' @ ws @ [q] @ js ''vue-facing-decorator'' @ [q'] @ b"
    and "ws \<noteq> []" and "\<forall>u\<in>set ws. is_space u" and "q \<in> {39, 34}" and "q' \<in> {39, 34}"
    and "code = a' @ js ''class'' @ mid @ js ''extends'' @ [w] @ js ''Vue'' @ b'"
    and "\<forall>u\<in>set mid. \<not> is_line_terminator u" and "is_space w"
  shows "confidence_milestone code = 80 \<and> confidence_milestone code > 50
         \<and> exportsClassComponent code"
proof -
  have 1: "re_test False re_import code"
    unfolding assms(1) using assms(2-5) by (rule import_found)
  have 2: "re_test False re_extends_vue code"
    unfolding assms(6) using assms(7,8) by (rule extends_vue_found)
  have "confidence_milestone code = 80"
    using 1 2 by (simp add: confidence_milestone_def)
  then show ?thesis by (simp add: exportsClassComponent_def)
qed

theorem vue_subclass_early_exit_witness:
  "is_space 32 \<and> \<not> is_line_terminator 32 \<and> confidence_milestone caseA = 80 \<and> exportsClassComponent caseA"
proof -
  have 1: \<open>caseA = js ''import { Component } '' @ js ''from'' @ [32] @ [34]
      @ js ''vue-facing-decorator'' @ [34] @ js '';\<newline>class Foo extends Vue {}\<newline>export default Foo;''\<close>
    by (simp add: caseA_def js_def)
  have 2: \<open>caseA = js ''import { Component } from "vue-facing-decorator";\<newline>'' @ js ''class''
      @ js '' Foo '' @ js ''extends'' @ [32] @ js ''Vue'' @ js '' {}\<newline>export default Foo;''\<close>
    by (simp add: caseA_def js_def)
  have 3: "\<forall>u\<in>set (js '' Foo ''). \<not> is_line_terminator u"
    by (simp add: js_def is_line_terminator_def)
  have 4: "is_space 32" "\<not> is_line_terminator 32" by (simp_all add: is_space_def is_line_terminator_def)
  show ?thesis
    using vue_subclass_early_exit [OF 1 _ _ _ _ 2 3 4(1)] 4 by simp
qed

text \<open>
  C7 as stated fails: not every class declaration that extends \<^verbatim>\<open>Vue\<close> is found. With
  the \<^verbatim>\<open>extends\<close> clause on the line after the class name, neither \<^verbatim>\<open>extends\<close> check
  matches; the confidence is 40 at the early return and 41 at the end, and the function
  returns false.
\<close>

theorem split_class_header_counterexample:
  "confidence_milestone caseSplit = 40 \<and> confidence_final caseSplit = 41
   \<and> \<not> exportsClassComponent caseSplit"
  by (simp add: caseSplit_def eval_defs)

section \<open>The export rewriter\<close>

lemma letter_class: "cls_match True (Ranges [(65, 90), (97, 122)]) u \<longleftrightarrow> is_ascii_letter u"
  by (auto simp: is_ascii_letter_def ascii_upper_def ascii_lower_def)

lemma semicolon_ci: "cls_match True (Lit 59) u \<longleftrightarrow> u = 59"
  by (auto simp: ascii_upper_def)

lemma lit_ci:
  "list_all2 (\<lambda>c u. cls_match True (Lit (of_char c)) u) l k \<longleftrightarrow>
     map ascii_upper k = map ascii_upper (js l)"
  by (induction l arbitrary: k) (auto simp: js_def list_all2_Cons1)

lemma match_semicolon:
  "match_here True (lits '';'') s = Some r \<longleftrightarrow> (\<exists>rest. s = 59 # rest \<and> r = ([], rest))"
  by (cases s) (auto simp: lits_def ascii_upper_def)

lemma capstar_semicolon_iff:
  "match_here True (CapStar (Ranges [(65, 90), (97, 122)]) # lits '';'') s = Some (X, rest) \<longleftrightarrow>
     s = X @ 59 # rest \<and> (\<forall>u\<in>set X. is_ascii_letter u)"
proof (induction s arbitrary: X)
  case Nil
  then show ?case by (simp add: lits_def)
next
  case (Cons u us)
  let ?c = "Ranges [(65, 90), (97, 122)]"
  show ?case
  proof (cases "is_ascii_letter u")
    case True
    then have ne: "u \<noteq> 59" by (auto simp: is_ascii_letter_def)
    then have none: "match_here True (lits '';'') (u # us) = None"
      using match_semicolon [of "u # us"] by (cases "match_here True (lits '';'') (u # us)") auto
    have "match_here True (CapStar ?c # lits '';'') (u # us) = Some (X, rest) \<longleftrightarrow>
          (\<exists>cap. match_here True (CapStar ?c # lits '';'') us = Some (cap, rest) \<and> X = u # cap)"
      using True none unfolding match_here.simps letter_class
      by (auto split: option.splits)
    also have "\<dots> \<longleftrightarrow> (\<exists>cap. us = cap @ 59 # rest \<and> (\<forall>u\<in>set cap. is_ascii_letter u) \<and> X = u # cap)"
      using Cons.IH by simp
    also have "\<dots> \<longleftrightarrow> u # us = X @ 59 # rest \<and> (\<forall>u\<in>set X. is_ascii_letter u)"
      using True ne by (cases X) auto
    finally show ?thesis .
  next
    case False
    have "match_here True (CapStar ?c # lits '';'') (u # us) = Some (X, rest) \<longleftrightarrow>
          match_here True (lits '';'') (u # us) = Some (X, rest)"
      using False unfolding match_here.simps letter_class by simp
    also have "\<dots> \<longleftrightarrow> u = 59 \<and> X = [] \<and> rest = us"
      unfolding match_semicolon by auto
    also have "\<dots> \<longleftrightarrow> u # us = X @ 59 # rest \<and> (\<forall>u\<in>set X. is_ascii_letter u)"
      using False by (cases X) auto
    finally show ?thesis .
  qed
qed

lemma sfc_match_iff:
  "match_here True re_sfc_main s = Some (X, rest) \<longleftrightarrow>
     (\<exists>k. s = k @ X @ js '';'' @ rest
        \<and> map ascii_upper k = map ascii_upper (js ''const _sfc_main = '')
        \<and> (\<forall>u\<in>set X. is_ascii_letter u))"
  unfolding re_sfc_main_def append_Cons append_Nil match_lits_iff lit_ci capstar_semicolon_iff
  by (auto simp: js_def)

declare replace_global.simps [simp del]

lemma sfc_match_iff':
  "match_here True re_sfc_main s = Some (X, rest) \<longleftrightarrow>
     (\<exists>k. s = k @ X @ [59] @ rest \<and> sfc_prefix k \<and> (\<forall>u\<in>set X. is_ascii_letter u))"
  unfolding sfc_match_iff sfc_prefix_def by (simp add: js_def)

lemma sfc_prefix_length: "sfc_prefix k \<Longrightarrow> length k = 18"
  unfolding sfc_prefix_def by (drule map_eq_imp_length_eq) (simp add: js_def)

lemma sfc_prefix_no_semicolon: "sfc_prefix k \<Longrightarrow> 59 \<notin> set k"
proof
  assume k: "sfc_prefix k" and "59 \<in> set k"
  then have "ascii_upper 59 \<in> set (map ascii_upper k)" by (metis image_eqI set_map)
  then show False using k unfolding sfc_prefix_def by (simp add: js_def ascii_upper_def)
qed

lemma sfc_prefix_last: "sfc_prefix k \<Longrightarrow> k ! 17 = 32"
proof -
  assume k: "sfc_prefix k"
  then have "length k = 18" by (rule sfc_prefix_length)
  then have "map ascii_upper k ! 17 = ascii_upper (k ! 17)" by simp
  moreover have "map ascii_upper k ! 17 = 32" using k unfolding sfc_prefix_def by (simp add: js_def ascii_upper_def)
  ultimately show ?thesis by (auto simp: ascii_upper_def split: if_splits)
qed

lemma letters_no_semicolon: "\<forall>u\<in>set X. is_ascii_letter u \<Longrightarrow> 59 \<notin> set X"
  by (auto simp: is_ascii_letter_def)

lemma transformedCode_Nil: "transformedCode [] = []"
  unfolding transformedCode_def
  by (subst replace_global.simps) (simp add: re_sfc_main_def lits_def)

lemma transformedCode_match:
  assumes "match_here True re_sfc_main s = Some (X, rest)"
  shows "transformedCode s = js ''const _sfc_main = toNative('' @ X @ js '');'' @ transformedCode rest"
proof -
  from assms obtain k where "s = k @ X @ [59] @ rest" unfolding sfc_match_iff' by blast
  then have "length rest < length s" by simp
  then show ?thesis
    unfolding transformedCode_def using assms
    by (subst replace_global.simps) (simp add: sfc_template_def)
qed

lemma transformedCode_copy:
  assumes "match_here True re_sfc_main (u # us) = None"
  shows "transformedCode (u # us) = u # transformedCode us"
  unfolding transformedCode_def using assms
  by (subst replace_global.simps) simp

lemma transformedCode_no_match:
  "(\<And>pre post. code = pre @ post \<Longrightarrow> match_here True re_sfc_main post = None) \<Longrightarrow>
   transformedCode code = code"
proof (induction code)
  case Nil
  then show ?case by (simp add: transformedCode_Nil)
next
  case (Cons u us)
  have "match_here True re_sfc_main (u # us) = None" using Cons.prems [of "[]" "u # us"] by simp
  then have "transformedCode (u # us) = u # transformedCode us" by (rule transformedCode_copy)
  moreover have "transformedCode us = us"
  proof (rule Cons.IH)
    fix pre post assume "us = pre @ post"
    then have "u # us = (u # pre) @ post" by simp
    then show "match_here True re_sfc_main post = None" by (rule Cons.prems)
  qed
  ultimately show ?case by simp
qed

lemma length_transformedCode: "length s \<le> length (transformedCode s)"
proof (induction s rule: length_induct)
  case (1 s)
  show ?case
  proof (cases "match_here True re_sfc_main s")
    case None
    show ?thesis
    proof (cases s)
      case Nil
      then show ?thesis by simp
    next
      case (Cons u us)
      then have "transformedCode s = u # transformedCode us"
        using None transformedCode_copy by simp
      moreover have "length us \<le> length (transformedCode us)" using 1 Cons by simp
      ultimately show ?thesis using Cons by simp
    qed
  next
    case (Some r)
    obtain X rest where r: "r = (X, rest)" by (cases r)
    then have m: "match_here True re_sfc_main s = Some (X, rest)" using Some by simp
    then obtain k where s: "s = k @ X @ [59] @ rest" and k: "sfc_prefix k"
      unfolding sfc_match_iff' by blast
    have "length rest \<le> length (transformedCode rest)" using 1 s by simp
    then show ?thesis
      using transformedCode_match [OF m] s sfc_prefix_length [OF k] by (simp add: js_def)
  qed
qed

lemma sfc_no_shift:
  assumes eq: "k @ X = pre @ k0 @ X0"
    and k: "sfc_prefix k" and k0: "sfc_prefix k0"
    and X: "\<forall>u\<in>set X. is_ascii_letter u"
  shows "pre = [] \<and> k = k0 \<and> X = X0"
proof -
  have lk: "length k = 18" "length k0 = 18" using k k0 by (simp_all add: sfc_prefix_length)
  have pre: "pre = []"
  proof (rule ccontr)
    assume "pre \<noteq> []"
    then obtain p ps where pre: "pre = p # ps" by (cases pre) auto
    let ?i = "length ps + 18"
    have len: "length X = Suc (length ps) + length X0"
      using arg_cong [OF eq, of length] lk pre by simp
    have "(pre @ k0 @ X0) ! ?i = k0 ! 17" using lk pre by (simp add: nth_append)
    then have at: "(k @ X) ! ?i = 32" using eq sfc_prefix_last [OF k0] by simp
    have "(k @ X) ! ?i = X ! length ps" using lk by (simp add: nth_append)
    then have "X ! length ps = 32" using at by simp
    moreover have "length ps < length X" using len by simp
    ultimately have "32 \<in> set X" by (metis nth_mem)
    then show False using X by (auto simp: is_ascii_letter_def)
  qed
  then have "k @ X = k0 @ X0" using eq by simp
  then have "k = k0 \<and> X = X0" using lk by simp
  then show ?thesis using pre by simp
qed

lemma first_split_unique:
  "x \<notin> set xs \<Longrightarrow> x \<notin> set ys \<Longrightarrow> xs @ x # r1 = ys @ x # r2 \<Longrightarrow> xs = ys \<and> r1 = r2"
proof (induction xs arbitrary: ys)
  case Nil
  then show ?case by (cases ys) auto
next
  case (Cons a xs)
  then show ?case by (cases ys) auto
qed

lemma sfc_overlap:
  assumes eq: "pre @ k0 @ X0 @ [59] @ post = k @ X @ [59] @ rest"
    and k: "sfc_prefix k" and k0: "sfc_prefix k0"
    and X: "\<forall>u\<in>set X. is_ascii_letter u" and X0: "\<forall>u\<in>set X0. is_ascii_letter u"
  shows "(pre = [] \<and> k = k0 \<and> X = X0 \<and> rest = post)
       \<or> (\<exists>r. pre = k @ X @ [59] @ r \<and> rest = r @ k0 @ X0 @ [59] @ post)"
proof -
  have A: "59 \<notin> set (k @ X)"
    using sfc_prefix_no_semicolon [OF k] letters_no_semicolon [OF X] by simp
  have B: "59 \<notin> set (k0 @ X0)"
    using sfc_prefix_no_semicolon [OF k0] letters_no_semicolon [OF X0] by simp
  show ?thesis
  proof (cases "59 \<in> set pre")
    case True
    then obtain p1 p2 where p: "pre = p1 @ 59 # p2" and p1: "59 \<notin> set p1"
      by (meson split_list_first)
    have e: "(k @ X) @ 59 # rest = p1 @ 59 # (p2 @ k0 @ X0 @ [59] @ post)"
      using eq p by simp
    have c: "k @ X = p1 \<and> rest = p2 @ k0 @ X0 @ [59] @ post"
      by (rule first_split_unique [OF A p1 e])
    then have "pre = k @ X @ [59] @ p2" using p by simp
    then have "pre = k @ X @ [59] @ p2 \<and> rest = p2 @ k0 @ X0 @ [59] @ post" using c by simp
    then show ?thesis by blast
  next
    case False
    then have C: "59 \<notin> set (pre @ k0 @ X0)" using B by simp
    have e: "(k @ X) @ 59 # rest = (pre @ k0 @ X0) @ 59 # post" using eq by simp
    have c: "k @ X = pre @ k0 @ X0 \<and> rest = post"
      by (rule first_split_unique [OF A C e])
    then have "k @ X = pre @ k0 @ X0" by simp
    from sfc_no_shift [OF this k k0 X] c show ?thesis by simp
  qed
qed

lemma transformedCode_occurrence:
  assumes k0: "sfc_prefix k0" and X0: "\<forall>u\<in>set X0. is_ascii_letter u"
  shows "transformedCode (pre @ k0 @ X0 @ [59] @ post) =
         transformedCode pre @ js ''const _sfc_main = toNative('' @ X0 @ js '');''
           @ transformedCode post"
proof (induction pre rule: length_induct)
  case (1 pre)
  let ?occ = "k0 @ X0 @ [59] @ post"
  let ?new = "js ''const _sfc_main = toNative('' @ X0 @ js '');'' @ transformedCode post"
  have here: "match_here True re_sfc_main ?occ = Some (X0, post)"
    unfolding sfc_match_iff' using k0 X0 by blast
  show ?case
  proof (cases "match_here True re_sfc_main (pre @ ?occ)")
    case None
    then obtain u pre' where pre: "pre = u # pre'" using here by (cases pre) auto
    have "match_here True re_sfc_main pre = None"
    proof (rule ccontr)
      assume "match_here True re_sfc_main pre \<noteq> None"
      then obtain X r where "match_here True re_sfc_main pre = Some (X, r)" by auto
      then obtain k where "pre = k @ X @ [59] @ r" "sfc_prefix k" "\<forall>u\<in>set X. is_ascii_letter u"
        unfolding sfc_match_iff' by blast
      then have "match_here True re_sfc_main (pre @ ?occ) = Some (X, r @ ?occ)"
        unfolding sfc_match_iff' by auto
      then show False using None by simp
    qed
    then have "transformedCode pre = u # transformedCode pre'"
      using pre transformedCode_copy by simp
    moreover have "transformedCode (pre @ ?occ) = u # transformedCode (pre' @ ?occ)"
      using None pre transformedCode_copy by simp
    moreover have "transformedCode (pre' @ ?occ) = transformedCode pre' @ ?new"
      using 1 pre by simp
    ultimately show ?thesis by simp
  next
    case (Some a)
    obtain X rest where m: "match_here True re_sfc_main (pre @ ?occ) = Some (X, rest)"
      using Some by (cases a) simp
    then obtain k where s: "pre @ ?occ = k @ X @ [59] @ rest" and k: "sfc_prefix k"
      and X: "\<forall>u\<in>set X. is_ascii_letter u"
      unfolding sfc_match_iff' by blast
    from sfc_overlap [OF s k k0 X X0]
    consider "pre = []" "X = X0" "rest = post"
      | r where "pre = k @ X @ [59] @ r" "rest = r @ ?occ"
      by blast
    then show ?thesis
    proof cases
      case 1
      then show ?thesis using transformedCode_match [OF m] by (simp add: transformedCode_Nil)
    next
      case 2
      then have "match_here True re_sfc_main pre = Some (X, r)"
        unfolding sfc_match_iff' using k X by blast
      then have "transformedCode pre =
          js ''const _sfc_main = toNative('' @ X @ js '');'' @ transformedCode r"
        by (rule transformedCode_match)
      moreover have "transformedCode (r @ ?occ) = transformedCode r @ ?new"
        using "1.IH" 2(1) by simp
      ultimately show ?thesis using transformedCode_match [OF m] 2(2) by simp
    qed
  qed
qed

lemmas sfc_eval = js_def lits_def re_sfc_main_def ascii_upper_def ascii_lower_def
  transformedCode_def sfc_template_def replace_global.simps

lemma sfc_prefix_refl: "sfc_prefix (js ''const _sfc_main = '')"
  by (simp add: sfc_prefix_def)

lemma letters_run_unique:
  "X @ 59 # r = L @ d # rest \<Longrightarrow> \<forall>u\<in>set X. is_ascii_letter u \<Longrightarrow>
   \<forall>u\<in>set L. is_ascii_letter u \<Longrightarrow> \<not> is_ascii_letter d \<Longrightarrow> d \<noteq> 59 \<Longrightarrow> False"
proof (induction X arbitrary: L)
  case Nil
  then show ?case by (cases L) (auto simp: is_ascii_letter_def)
next
  case (Cons x X)
  then show ?case by (cases L) auto
qed

lemma import_copied: "transformedCode (vueFacingImport @ s) = vueFacingImport @ transformedCode s"
  by (simp add: vueFacingImport_def js_def transformedCode_copy re_sfc_main_def lits_def ascii_upper_def)

lemma non_letter_not_matched:
  assumes L: "\<forall>u\<in>set L. is_ascii_letter u" and d: "\<not> is_ascii_letter d" "d \<noteq> 59"
  shows "match_here True re_sfc_main (js ''const _sfc_main = '' @ L @ d # rest) = None"
proof (rule ccontr)
  assume "match_here True re_sfc_main (js ''const _sfc_main = '' @ L @ d # rest) \<noteq> None"
  then obtain X r where
    "match_here True re_sfc_main (js ''const _sfc_main = '' @ L @ d # rest) = Some (X, r)"
    by auto
  then obtain k where e: "js ''const _sfc_main = '' @ L @ d # rest = k @ X @ [59] @ r"
    and k: "sfc_prefix k" and X: "\<forall>u\<in>set X. is_ascii_letter u"
    unfolding sfc_match_iff' by blast
  have "length k = length (js ''const _sfc_main = '')"
    using sfc_prefix_length [OF k] by (simp add: js_def)
  then have "X @ 59 # r = L @ d # rest" using e by simp
  then show False using letters_run_unique X L d by blast
qed

text \<open>
  C3, as amended. The \<^verbatim>\<open>i\<close> flag covers the whole pattern: the pattern matches at the
  start of a text exactly when the text starts with eighteen characters equal to
  \<^verbatim>\<open>const _sfc_main = \<close> up to ASCII case (the keyword and the binding name alike), then a
  run of ASCII letters, which is the captured identifier, then a semicolon.
\<close>

theorem sfc_match_any_case:
  "match_here True re_sfc_main s = Some (X, rest) \<longleftrightarrow>
     (\<exists>k. s = k @ X @ js '';'' @ rest
        \<and> map ascii_upper k = map ascii_upper (js ''const _sfc_main = '')
        \<and> (\<forall>u\<in>set X. is_ascii_letter u))"
  unfolding sfc_match_iff' sfc_prefix_def by (simp add: js_def)

theorem sfc_match_any_case_witness:
  "match_here True re_sfc_main (js ''const _SFC_MAIN = Foo;'') = Some (js ''Foo'', [])"
proof -
  have "js ''const _SFC_MAIN = Foo;'' = js ''const _SFC_MAIN = '' @ js ''Foo'' @ js '';'' @ []
      \<and> map ascii_upper (js ''const _SFC_MAIN = '') = map ascii_upper (js ''const _sfc_main = '')
      \<and> (\<forall>u\<in>set (js ''Foo''). is_ascii_letter u)"
    by (simp add: js_def ascii_upper_def is_ascii_letter_def)
  then show ?thesis
    using sfc_match_any_case [of "js ''const _SFC_MAIN = Foo;''" "js ''Foo''" "[]"] by blast
qed

text \<open>
  C3 as stated fails: \<^verbatim>\<open>const _SFC_MAIN = Foo;\<close> is rewritten, and the replacement
  writes the binding name in lower case.
\<close>

theorem binding_case_counterexample:
  "transformedCode (js ''const _SFC_MAIN = Foo;'') = js ''const _sfc_main = toNative(Foo);''
   \<and> handler always (js ''const _SFC_MAIN = Foo;'')
       = vueFacingImport @ js ''const _sfc_main = toNative(Foo);''"
  by (simp add: sfc_eval handler_def always_def)

text \<open>
  What the rewriter does with an assignment: every occurrence of
  \<^verbatim>\<open>const _sfc_main = X;\<close> in which \<open>X\<close> is a run of ASCII letters (possibly empty) is
  replaced by \<^verbatim>\<open>const _sfc_main = toNative(X);\<close>, whatever stands before and after it,
  and the texts before and after are rewritten on their own.
\<close>

lemma letter_occurrence_rewritten:
  "\<forall>u\<in>set X. is_ascii_letter u \<Longrightarrow>
     transformedCode (pre @ js ''const _sfc_main = '' @ X @ js '';'' @ post)
       = transformedCode pre @ js ''const _sfc_main = toNative('' @ X @ js '');''
           @ transformedCode post"
  using transformedCode_occurrence [OF sfc_prefix_refl, of X pre post] by (simp add: js_def)

text \<open>
  C4. The rewriter is meant to pass the \<^verbatim>\<open>_sfc_main\<close> export of every class component
  through \<^verbatim>\<open>toNative\<close>, whatever the identifier, but the capture group \<^verbatim>\<open>[A-Za-z]*\<close>
  takes letters only. The component \<open>caseStep2\<close>, whose class is named \<^verbatim>\<open>Step2\<close>, passes
  the preflight filter and is classified as a class component; the pipeline puts the import
  line in front and leaves \<^verbatim>\<open>const _sfc_main = Step2;\<close> as it is. An identifier with
  an underscore is not wrapped either.
\<close>

theorem digit_identifier_not_wrapped:
  "passesPreflight caseStep2 \<and> exportsClassComponent caseStep2
   \<and> pipeline caseStep2 = vueFacingImport @ caseStep2
   \<and> transformedCode (js ''const _sfc_main = Step2;'') = js ''const _sfc_main = Step2;''
   \<and> transformedCode (js ''const _sfc_main = foo_bar;'') = js ''const _sfc_main = foo_bar;''"
proof -
  have p: "passesPreflight caseStep2"
    by (simp add: caseStep2_def passesPreflight_def js_def)
  have c: "exportsClassComponent caseStep2"
    by (simp add: caseStep2_def eval_defs)
  have t: "transformedCode caseStep2 = caseStep2"
    by (simp add: caseStep2_def sfc_eval)
  have "pipeline caseStep2 = vueFacingImport @ caseStep2"
    using p c t by (simp add: pipeline_def pluginVfd_def handler_def default_options_def)
  moreover have "transformedCode (js ''const _sfc_main = Step2;'') = js ''const _sfc_main = Step2;''
   \<and> transformedCode (js ''const _sfc_main = foo_bar;'') = js ''const _sfc_main = foo_bar;''"
    by (simp add: sfc_eval)
  ultimately show ?thesis using p c by simp
qed

text \<open>
  C8. When the predicate says no, the handler returns its input. When it says yes, the
  output is the import line followed by the rewritten text, where the rewritten text has
  the replacement in place of a match, copies a character at which the pattern does not
  match, and is the input itself when the pattern matches nowhere.
\<close>

theorem handler_output:
  "(\<not> isClassComponent options code \<longrightarrow> handler options code = code)
   \<and> (isClassComponent options code \<longrightarrow>
        handler options code
          = js ''\<newline>import {toNative} from \"vue-facing-decorator\";\<newline>'' @ transformedCode code)
   \<and> (isClassComponent options code \<and> \<not> re_test True re_sfc_main code \<longrightarrow>
        handler options code
          = js ''\<newline>import {toNative} from \"vue-facing-decorator\";\<newline>'' @ code)
   \<and> (match_here True re_sfc_main s = Some (X, rest) \<longrightarrow>
        transformedCode s = js ''const _sfc_main = toNative('' @ X @ js '');'' @ transformedCode rest)
   \<and> (match_here True re_sfc_main (u # us) = None \<longrightarrow>
        transformedCode (u # us) = u # transformedCode us)
   \<and> transformedCode [] = []"
proof -
  have "transformedCode code = code" if no: "\<not> re_test True re_sfc_main code"
  proof (rule transformedCode_no_match)
    fix pre post
    assume "code = pre @ post"
    then have "\<not> match_here True re_sfc_main post \<noteq> None"
      using no re_test_I [of True re_sfc_main post pre] by blast
    then show "match_here True re_sfc_main post = None"
      by (cases "match_here True re_sfc_main post") auto
  qed
  then show ?thesis
    using transformedCode_match [of s X rest] transformedCode_copy [of u us]
    by (simp add: handler_def vueFacingImport_def transformedCode_Nil)
qed

theorem handler_output_witness:
  "handler never (js ''const _sfc_main = Foo;'') = js ''const _sfc_main = Foo;''
   \<and> handler always (js ''const _sfc_main = Foo;'')
       = js ''\<newline>import {toNative} from \"vue-facing-decorator\";\<newline>''
         @ js ''const _sfc_main = toNative(Foo);''
   \<and> handler always (js ''export default Foo;'')
       = js ''\<newline>import {toNative} from \"vue-facing-decorator\";\<newline>''
         @ js ''export default Foo;''
   \<and> transformedCode (120 # js '' = 1;'') = 120 # js '' = 1;''"
proof -
  let ?imp = "js ''\<newline>import {toNative} from \"vue-facing-decorator\";\<newline>''"
  let ?c = "js ''const _sfc_main = Foo;''"
  have n: "\<not> isClassComponent never ?c" by (simp add: never_def)
  have a: "isClassComponent always c" for c by (simp add: always_def)
  have m: "match_here True re_sfc_main ?c = Some (js ''Foo'', [])"
    by (simp add: js_def lits_def re_sfc_main_def ascii_upper_def ascii_lower_def)
  have t: "\<not> re_test True re_sfc_main (js ''export default Foo;'')"
    by (simp add: js_def lits_def re_sfc_main_def ascii_upper_def ascii_lower_def)
  have c: "match_here True re_sfc_main (120 # js '' = 1;'') = None"
    by (simp add: js_def lits_def re_sfc_main_def ascii_upper_def ascii_lower_def)
  have r: "transformedCode (js '' = 1;'') = js '' = 1;''"
    by (simp add: sfc_eval)
  from handler_output [of never ?c "[]" "[]" "[]" 0 "[]"] n
  have 1: "handler never ?c = ?c" by blast
  from handler_output [of always ?c ?c "js ''Foo''" "[]" 120 "js '' = 1;''"] a m c
  have 2: "handler always ?c = ?imp @ transformedCode ?c"
    and 3: "transformedCode ?c = js ''const _sfc_main = toNative('' @ js ''Foo'' @ js '');''
              @ transformedCode []"
    and 4: "transformedCode [] = []"
    and 5: "transformedCode (120 # js '' = 1;'') = 120 # transformedCode (js '' = 1;'')"
    by blast+
  from handler_output [of always "js ''export default Foo;''" "[]" "[]" "[]" 0 "[]"] a t
  have 6: "handler always (js ''export default Foo;'') = ?imp @ js ''export default Foo;''"
    by blast
  have 7: "js ''const _sfc_main = toNative('' @ js ''Foo'' @ js '');''
      = js ''const _sfc_main = toNative(Foo);''" by (simp add: js_def)
  show ?thesis using 1 2 3 4 5 6 7 r by simp
qed

text \<open>
  C9. The pattern accepts an empty identifier: for a text that holds
  \<^verbatim>\<open>const _sfc_main = ;\<close> and a predicate that says yes, the output holds
  \<^verbatim>\<open>const _sfc_main = toNative();\<close>.
\<close>

theorem empty_identifier_wrapped:
  "match_here True re_sfc_main (js ''const _sfc_main = ;'' @ post) = Some ([], post)
   \<and> (isClassComponent options code \<and> code = pre @ js ''const _sfc_main = ;'' @ post \<longrightarrow>
        handler options code
          = vueFacingImport @ transformedCode pre @ js ''const _sfc_main = toNative();''
              @ transformedCode post
        \<and> js_includes (handler options code) (js ''const _sfc_main = toNative();''))"
proof -
  have m: "match_here True re_sfc_main (js ''const _sfc_main = ;'' @ post) = Some ([], post)"
    by (simp add: js_def lits_def re_sfc_main_def ascii_upper_def ascii_lower_def)
  have t: "transformedCode (pre @ js ''const _sfc_main = ;'' @ post)
      = transformedCode pre @ js ''const _sfc_main = toNative();'' @ transformedCode post"
    using transformedCode_occurrence [OF sfc_prefix_refl, of "[]" pre post] by (simp add: js_def)
  have "js_includes (vueFacingImport @ transformedCode pre @ js ''const _sfc_main = toNative();''
              @ transformedCode post) (js ''const _sfc_main = toNative();'')"
    unfolding js_includes_iff
    by (rule exI [of _ "vueFacingImport @ transformedCode pre"], rule exI [of _ "transformedCode post"]) simp
  then have "handler options code
          = vueFacingImport @ transformedCode pre @ js ''const _sfc_main = toNative();''
              @ transformedCode post
        \<and> js_includes (handler options code) (js ''const _sfc_main = toNative();'')"
    if "isClassComponent options code" "code = pre @ js ''const _sfc_main = ;'' @ post"
    using that t by (simp add: handler_def)
  then show ?thesis using m by blast
qed

theorem empty_identifier_wrapped_witness:
  "handler always (js ''const _sfc_main = ;'')
     = vueFacingImport @ js ''const _sfc_main = toNative();''
   \<and> js_includes (handler always (js ''const _sfc_main = ;'')) (js ''const _sfc_main = toNative();'')"
proof -
  have a: "isClassComponent always (js ''const _sfc_main = ;'')" by (simp add: always_def)
  have e: "js ''const _sfc_main = ;'' = [] @ js ''const _sfc_main = ;'' @ []" by simp
  from empty_identifier_wrapped [of "[]" always "js ''const _sfc_main = ;''" "[]"] a e
  have 1: "handler always (js ''const _sfc_main = ;'')
      = vueFacingImport @ transformedCode [] @ js ''const _sfc_main = toNative();''
          @ transformedCode []"
    and 2: "js_includes (handler always (js ''const _sfc_main = ;''))
      (js ''const _sfc_main = toNative();'')"
    by blast+
  show ?thesis using 1 2 by (simp add: transformedCode_Nil)
qed

section \<open>The pipeline\<close>

text \<open>
  C2. The pipeline with the default predicate is idempotent: when the handler rewrites, its
  output starts with the import line, which holds \<^verbatim>\<open>toNative\<close>, so the output fails
  the preflight filter and the second run returns it unchanged.
\<close>

theorem pipeline_idempotent: "pipeline (pipeline x) = pipeline x"
proof (cases "isClassComponent default_options x")
  case False
  then have "pipeline x = x" by (simp add: pipeline_def pluginVfd_def handler_def)
  then show ?thesis by simp
next
  case True
  then have out: "pipeline x = vueFacingImport @ transformedCode x"
    by (simp add: pipeline_def pluginVfd_def handler_def)
  have "\<not> passesPreflight (vueFacingImport @ transformedCode x)"
    using import_has_toNative by (simp add: passesPreflight_def)
  then have "\<not> isClassComponent default_options (pipeline x)"
    using out by (simp add: default_options_def)
  then show ?thesis by (simp add: pipeline_def pluginVfd_def handler_def)
qed

text \<open>
  C10. The import line is added whenever the predicate says yes, also to a text that
  already starts with it: for a predicate that accepts both a text and the handler's output
  for it, the second run puts a second import line in front, so its output differs from the
  first.
\<close>

theorem second_import_added:
  "isClassComponent options t \<and> isClassComponent options (handler options t) \<longrightarrow>
     handler options (handler options t)
       = vueFacingImport @ vueFacingImport @ transformedCode (transformedCode t)
     \<and> handler options (handler options t) \<noteq> handler options t"
proof
  assume a: "isClassComponent options t \<and> isClassComponent options (handler options t)"
  have h: "handler options c = vueFacingImport @ transformedCode c"
    if "isClassComponent options c" for c
    using that by (simp add: handler_def)
  have 1: "handler options t = vueFacingImport @ transformedCode t"
    using a by (intro h) simp
  have 2: "handler options (handler options t) = vueFacingImport @ transformedCode (handler options t)"
    using a by (intro h) simp
  have 3: "handler options (handler options t)
       = vueFacingImport @ vueFacingImport @ transformedCode (transformedCode t)"
    using 2 1 import_copied by simp
  have "length (handler options t) \<le> length (transformedCode (handler options t))"
    by (rule length_transformedCode)
  moreover have "length vueFacingImport = 48" by (simp add: vueFacingImport_def js_def)
  ultimately have "length (handler options t) < length (handler options (handler options t))"
    using 2 by simp
  then have "handler options (handler options t) \<noteq> handler options t" by auto
  then show "handler options (handler options t)
       = vueFacingImport @ vueFacingImport @ transformedCode (transformedCode t)
     \<and> handler options (handler options t) \<noteq> handler options t"
    using 3 by simp
qed

theorem second_import_added_witness:
  "handler always (handler always (js ''const _sfc_main = Foo;''))
     = vueFacingImport @ vueFacingImport @ js ''const _sfc_main = toNative(Foo);''
   \<and> handler always (handler always (js ''const _sfc_main = Foo;''))
       \<noteq> handler always (js ''const _sfc_main = Foo;'')"
proof -
  have a: "isClassComponent always c" for c by (simp add: always_def)
  have t: "transformedCode (transformedCode (js ''const _sfc_main = Foo;''))
      = js ''const _sfc_main = toNative(Foo);''"
    by (simp add: sfc_eval)
  from second_import_added [of always "js ''const _sfc_main = Foo;''"] a
  have 1: "handler always (handler always (js ''const _sfc_main = Foo;''))
      = vueFacingImport @ vueFacingImport
          @ transformedCode (transformedCode (js ''const _sfc_main = Foo;''))"
    and 2: "handler always (handler always (js ''const _sfc_main = Foo;''))
       \<noteq> handler always (js ''const _sfc_main = Foo;'')"
    by blast+
  show ?thesis using 1 2 t by simp
qed

end
